theory Spec2Isabelle
  imports Main
begin

section \<open>JavaScript values, function objects and the store\<close>

text \<open>
  The library (classes \<open>Subscribe\<close> and \<open>Subs\<close>) manipulates three kinds of
  JavaScript objects: functions, arrays of functions and the event sources of the host
  platform. Objects have identity and are mutable, so they live in an explicit store and
  values refer to them by address.

  A function value is either a function of the calling program (\<open>VUser\<close>, whose
  behaviour is given by an environment) or a closure that an arrow expression of the
  library created (\<open>VFun\<close>, an address in the store of closures).

  The development follows the TypeScript source of the two classes. The compiled file
  \<open>dist/index.js\<close> is an earlier build of the same code (class \<open>Subscriptions\<close>,
  without the timers and the cleanup functions) and is not modelled.
\<close>

type_synonym fid = nat
type_synonym aid = nat
type_synonym uid = string
type_synonym eid = nat
type_synonym did = nat
type_synonym tid = nat

datatype jsval =
    VUndefined
  | VBool bool
  | VNum int
  | VStr string
  | VError string
  | VUser uid
  | VFun fid
  | VArray aid

text \<open>The type \<open>boolean | AddEventListenerOptions\<close>; \<open>undefined\<close> is \<open>None\<close>.
  The object form carries \<open>capture\<close>, \<open>once\<close> and \<open>passive\<close>.\<close>

datatype listener_options = OptBoolean bool | OptObject bool bool bool

text \<open>A \<open>Subs\<close> object has one field, \<open>list\<close>, assigned by the constructor and
  never reassigned by the library: the address of its array.\<close>

record Subs =
  list_ref :: aid

text \<open>One constructor per arrow expression of the source that creates a function:
  \<^item> \<open>NoOp\<close>: \<open>() => {}\<close> of \<open>Subscribe.subscribe\<close>;
  \<^item> \<open>RemoveListener\<close>: \<open>() => { eventEmitter.removeListener(eventName, listener) }\<close>;
  \<^item> \<open>RemoveEventListener\<close>: \<open>() => { domObj.removeEventListener(eventName, listener, options) }\<close>;
  \<^item> \<open>ClearTimeout\<close>, \<open>ClearInterval\<close>: \<open>() => clearTimeout(timeout)\<close>, \<open>() => clearInterval(interval)\<close>;
  \<^item> \<open>UnsubAll\<close>: \<open>() => Subscribe.unsubAll(unsubs)\<close> of \<open>Subscribe.createCleanup\<close>;
  \<^item> \<open>SubsUnsubAll\<close>: \<open>() => { this.unsubAll() }\<close> of \<open>Subs.createCleanup\<close>.
  Each stores the variables the closure captures.\<close>

datatype closure =
    NoOp
  | RemoveListener eid string jsval
  | RemoveEventListener did string jsval "listener_options option"
  | ClearTimeout tid
  | ClearInterval tid
  | UnsubAll jsval
  | SubsUnsubAll Subs

record timer =
  handler :: jsval
  delay :: int
  targs :: "jsval list"
  repeating :: bool

record world =
  funs :: "fid \<rightharpoonup> closure"
  next_fun :: fid
  arrays :: "aid \<Rightarrow> jsval list"
  next_arr :: aid
  console :: "jsval list"
  emitters :: "eid \<Rightarrow> (string \<times> jsval) list"
  doms :: "did \<Rightarrow> (string \<times> jsval \<times> bool) list"
  timers :: "tid \<rightharpoonup> timer"
  next_timer :: tid
  app_log :: "jsval list"

text \<open>A call completes normally with a value or abruptly with a thrown value; a call
  that does not return at all is \<open>None\<close>.\<close>

datatype outcome = Return jsval | Throw jsval

type_synonym js = "world \<Rightarrow> (outcome \<times> world) option"

text \<open>\<open>call f args\<close> is the call expression \<open>f(...args)\<close>.\<close>

type_synonym invoker = "jsval \<Rightarrow> jsval list \<Rightarrow> js"

text \<open>The functions of the calling program. Each receives the means to call functions
  itself, so that it may call back into the library.\<close>

type_synonym env = "uid \<Rightarrow> invoker \<Rightarrow> jsval list \<Rightarrow> js"

subsection \<open>Built-ins of the language\<close>

definition console_error :: "jsval \<Rightarrow> world \<Rightarrow> world" where
  "console_error e w = w\<lparr>console := console w @ [e]\<rparr>"

text \<open>Evaluating an arrow expression allocates a new function object.\<close>

definition new_function :: "closure \<Rightarrow> world \<Rightarrow> jsval \<times> world" where
  "new_function c w =
     (VFun (next_fun w),
      w\<lparr>funs := (funs w)(next_fun w \<mapsto> c), next_fun := Suc (next_fun w)\<rparr>)"

text \<open>An array literal and a rest parameter allocate a new array object.\<close>

definition new_array :: "jsval list \<Rightarrow> world \<Rightarrow> aid \<times> world" where
  "new_array xs w =
     (next_arr w, w\<lparr>arrays := (arrays w)(next_arr w := xs), next_arr := Suc (next_arr w)\<rparr>)"

definition Array_push :: "aid \<Rightarrow> jsval \<Rightarrow> world \<Rightarrow> world" where
  "Array_push a v w = w\<lparr>arrays := (arrays w)(a := arrays w a @ [v])\<rparr>"

text \<open>\<open>a.splice(start, n)\<close> removes \<open>n\<close> elements from index \<open>start\<close>, in place.\<close>

definition Array_splice :: "aid \<Rightarrow> nat \<Rightarrow> nat \<Rightarrow> world \<Rightarrow> world" where
  "Array_splice a start n w =
     w\<lparr>arrays := (arrays w)(a := take start (arrays w a) @ drop (start + n) (arrays w a))\<rparr>"

text \<open>\<open>Array.prototype.forEach\<close>: the length is read once, before the first call; at
  each index below it, the element found in the array at that moment is passed to the
  callback, and an index the array no longer has is skipped. An exception of the callback
  ends the iteration.\<close>

fun forEach_from :: "(jsval \<Rightarrow> js) \<Rightarrow> aid \<Rightarrow> nat \<Rightarrow> nat \<Rightarrow> js" where
  "forEach_from cb a k 0 w = Some (Return VUndefined, w)"
| "forEach_from cb a k (Suc m) w =
     (if k < length (arrays w a) then
        (case cb (arrays w a ! k) w of
           None \<Rightarrow> None
         | Some (Throw e, w') \<Rightarrow> Some (Throw e, w')
         | Some (Return _, w') \<Rightarrow> forEach_from cb a (Suc k) m w')
      else forEach_from cb a (Suc k) m w)"

definition Array_forEach :: "(jsval \<Rightarrow> js) \<Rightarrow> aid \<Rightarrow> js" where
  "Array_forEach cb a w = forEach_from cb a 0 (length (arrays w a)) w"

subsection \<open>The host platform: emitters, DOM targets, timers\<close>

text \<open>The event sources are not part of the library. They are modelled by the
  registrations they hold: an emitter keeps its listeners in a list, in the
  order added; a DOM target keeps (type, callback, capture) triples without duplicates;
  the timer facility keeps the pending timers by handle.\<close>

definition addListener :: "eid \<Rightarrow> string \<Rightarrow> jsval \<Rightarrow> world \<Rightarrow> world" where
  "addListener e nm l w = w\<lparr>emitters := (emitters w)(e := emitters w e @ [(nm, l)])\<rparr>"

text \<open>\<open>removeListener\<close> removes at most one instance, the most recently added.\<close>

definition removeListener :: "eid \<Rightarrow> string \<Rightarrow> jsval \<Rightarrow> world \<Rightarrow> world" where
  "removeListener e nm l w =
     w\<lparr>emitters := (emitters w)(e := rev (remove1 (nm, l) (rev (emitters w e))))\<rparr>"

fun capture_of :: "listener_options option \<Rightarrow> bool" where
  "capture_of None = False"
| "capture_of (Some (OptBoolean b)) = b"
| "capture_of (Some (OptObject c _ _)) = c"

definition addEventListener ::
  "did \<Rightarrow> string \<Rightarrow> jsval \<Rightarrow> listener_options option \<Rightarrow> world \<Rightarrow> world" where
  "addEventListener d nm l opts w =
     (if (nm, l, capture_of opts) \<in> set (doms w d) then w
      else w\<lparr>doms := (doms w)(d := doms w d @ [(nm, l, capture_of opts)])\<rparr>)"

definition removeEventListener ::
  "did \<Rightarrow> string \<Rightarrow> jsval \<Rightarrow> listener_options option \<Rightarrow> world \<Rightarrow> world" where
  "removeEventListener d nm l opts w =
     w\<lparr>doms := (doms w)(d := removeAll (nm, l, capture_of opts) (doms w d))\<rparr>"

text \<open>\<open>setTimeout(handler, delay, ...rest)\<close> and \<open>setInterval\<close> of the platform: an
  omitted delay is 0; the arguments after the delay are passed to the handler when the
  timer fires.\<close>

definition set_timer ::
  "bool \<Rightarrow> jsval \<Rightarrow> int option \<Rightarrow> jsval list \<Rightarrow> world \<Rightarrow> tid \<times> world" where
  "set_timer rep h d rest w =
     (next_timer w,
      w\<lparr>timers := (timers w)(next_timer w \<mapsto>
            \<lparr>handler = h, delay = (case d of None \<Rightarrow> 0 | Some ms \<Rightarrow> ms),
             targs = rest, repeating = rep\<rparr>),
        next_timer := Suc (next_timer w)\<rparr>)"

definition global_setTimeout ::
  "jsval \<Rightarrow> int option \<Rightarrow> jsval list \<Rightarrow> world \<Rightarrow> tid \<times> world" where
  "global_setTimeout = set_timer False"

definition global_setInterval ::
  "jsval \<Rightarrow> int option \<Rightarrow> jsval list \<Rightarrow> world \<Rightarrow> tid \<times> world" where
  "global_setInterval = set_timer True"

definition global_clearTimeout :: "tid \<Rightarrow> world \<Rightarrow> world" where
  "global_clearTimeout t w = w\<lparr>timers := (timers w)(t := None)\<rparr>"

definition global_clearInterval :: "tid \<Rightarrow> world \<Rightarrow> world" where
  "global_clearInterval t w = w\<lparr>timers := (timers w)(t := None)\<rparr>"

text \<open>The platform fires a pending timer: a one-shot timer is no longer pending once it
  fires, and the handler is called with the stored arguments.\<close>

definition fire_timer :: "invoker \<Rightarrow> tid \<Rightarrow> js" where
  "fire_timer call t w =
     (case timers w t of
        None \<Rightarrow> Some (Return VUndefined, w)
      | Some tm \<Rightarrow>
          call (handler tm) (targs tm) (if repeating tm then w else global_clearTimeout t w))"

section \<open>Class \<open>Subscribe\<close>\<close>

text \<open>\<open>try { return subscribe(); } catch (e) { console.error(e); } return () => {};\<close>\<close>

definition Subscribe_subscribe :: "invoker \<Rightarrow> jsval \<Rightarrow> js" where
  "Subscribe_subscribe call subscribe w =
     (case call subscribe [] w of
        None \<Rightarrow> None
      | Some (Return unsub, w1) \<Rightarrow> Some (Return unsub, w1)
      | Some (Throw e, w1) \<Rightarrow>
          (let (noop, w2) = new_function NoOp (console_error e w1) in Some (Return noop, w2)))"

definition Subscribe_subscribeEvent ::
  "eid \<Rightarrow> string \<Rightarrow> jsval \<Rightarrow> world \<Rightarrow> jsval \<times> world" where
  "Subscribe_subscribeEvent eventEmitter eventName listener w =
     new_function (RemoveListener eventEmitter eventName listener)
       (addListener eventEmitter eventName listener w)"

definition Subscribe_subscribeDOMEvent ::
  "did \<Rightarrow> string \<Rightarrow> jsval \<Rightarrow> listener_options option \<Rightarrow> world \<Rightarrow> jsval \<times> world" where
  "Subscribe_subscribeDOMEvent domObj eventName listener options w =
     new_function (RemoveEventListener domObj eventName listener options)
       (addEventListener domObj eventName listener options w)"

text \<open>The rest parameter \<open>...args\<close> is an array, and the body passes that array to the
  platform as one argument: \<open>setTimeout(handler, delay, args)\<close>.\<close>

definition Subscribe_setTimeout ::
  "jsval \<Rightarrow> int option \<Rightarrow> jsval list \<Rightarrow> world \<Rightarrow> jsval \<times> world" where
  "Subscribe_setTimeout h d args w =
     (let (a, w1) = new_array args w;
          (timeout, w2) = global_setTimeout h d [VArray a] w1
      in new_function (ClearTimeout timeout) w2)"

definition Subscribe_setInterval ::
  "jsval \<Rightarrow> int option \<Rightarrow> jsval list \<Rightarrow> world \<Rightarrow> jsval \<times> world" where
  "Subscribe_setInterval h d args w =
     (let (a, w1) = new_array args w;
          (interval, w2) = global_setInterval h d [VArray a] w1
      in new_function (ClearInterval interval) w2)"

text \<open>\<open>try { unsub(); } catch (e) { console.error(e); }\<close>, the body of both branches of
  \<open>Subscribe.unsubAll\<close>.\<close>

definition try_unsub :: "invoker \<Rightarrow> jsval \<Rightarrow> js" where
  "try_unsub call unsub w =
     (case call unsub [] w of
        None \<Rightarrow> None
      | Some (Return _, w1) \<Rightarrow> Some (Return VUndefined, w1)
      | Some (Throw e, w1) \<Rightarrow> Some (Return VUndefined, console_error e w1))"

definition Subscribe_unsubAll :: "invoker \<Rightarrow> jsval \<Rightarrow> js" where
  "Subscribe_unsubAll call unsubs w =
     (case unsubs of
        VArray a \<Rightarrow> Array_forEach (try_unsub call) a w
      | _ \<Rightarrow> try_unsub call unsubs w)"

definition Subscribe_createCleanup :: "jsval \<Rightarrow> world \<Rightarrow> jsval \<times> world" where
  "Subscribe_createCleanup unsubs w = new_function (UnsubAll unsubs) w"

section \<open>Class \<open>Subs\<close>\<close>

text \<open>\<open>constructor(public list: Unsubscribe[] = [])\<close>: the array given, or a new empty
  one.\<close>

definition Subs_new :: "aid option \<Rightarrow> world \<Rightarrow> Subs \<times> world" where
  "Subs_new lst w =
     (case lst of
        None \<Rightarrow> (let (a, w1) = new_array [] w in (\<lparr>list_ref = a\<rparr>, w1))
      | Some a \<Rightarrow> (\<lparr>list_ref = a\<rparr>, w))"

definition Subs_push :: "Subs \<Rightarrow> jsval \<Rightarrow> world \<Rightarrow> world" where
  "Subs_push this unsub w = Array_push (list_ref this) unsub w"

definition Subs_subscribe :: "invoker \<Rightarrow> Subs \<Rightarrow> jsval \<Rightarrow> js" where
  "Subs_subscribe call this subscribe w =
     (case Subscribe_subscribe call subscribe w of
        None \<Rightarrow> None
      | Some (Throw e, w1) \<Rightarrow> Some (Throw e, w1)
      | Some (Return unsub, w1) \<Rightarrow> Some (Return unsub, Subs_push this unsub w1))"

definition Subs_subscribeEvent ::
  "Subs \<Rightarrow> eid \<Rightarrow> string \<Rightarrow> jsval \<Rightarrow> world \<Rightarrow> jsval \<times> world" where
  "Subs_subscribeEvent this eventEmitter eventName listener w =
     (let (unsub, w1) = Subscribe_subscribeEvent eventEmitter eventName listener w
      in (unsub, Subs_push this unsub w1))"

text \<open>The method has three parameters; it calls
  \<open>Subscribe.subscribeDOMEvent(domObj, eventName, listener)\<close>, so \<open>options\<close> is
  \<open>undefined\<close> there.\<close>

definition Subs_subscribeDOMEvent ::
  "Subs \<Rightarrow> did \<Rightarrow> string \<Rightarrow> jsval \<Rightarrow> world \<Rightarrow> jsval \<times> world" where
  "Subs_subscribeDOMEvent this domObj eventName listener w =
     (let (unsub, w1) = Subscribe_subscribeDOMEvent domObj eventName listener None w
      in (unsub, Subs_push this unsub w1))"

definition Subs_setTimeout ::
  "Subs \<Rightarrow> jsval \<Rightarrow> int option \<Rightarrow> jsval list \<Rightarrow> world \<Rightarrow> jsval \<times> world" where
  "Subs_setTimeout this h d args w =
     (let (a, w1) = new_array args w;
          (timeout, w2) = global_setTimeout h d [VArray a] w1;
          (unsub, w3) = new_function (ClearTimeout timeout) w2
      in (unsub, Subs_push this unsub w3))"

definition Subs_setInterval ::
  "Subs \<Rightarrow> jsval \<Rightarrow> int option \<Rightarrow> jsval list \<Rightarrow> world \<Rightarrow> jsval \<times> world" where
  "Subs_setInterval this h d args w =
     (let (a, w1) = new_array args w;
          (interval, w2) = global_setInterval h d [VArray a] w1;
          (unsub, w3) = new_function (ClearInterval interval) w2
      in (unsub, Subs_push this unsub w3))"

text \<open>\<open>Subscribe.unsubAll(this.list); this.list.splice(0, this.list.length);\<close>\<close>

definition Subs_unsubAll :: "invoker \<Rightarrow> Subs \<Rightarrow> js" where
  "Subs_unsubAll call this w =
     (case Subscribe_unsubAll call (VArray (list_ref this)) w of
        None \<Rightarrow> None
      | Some (Throw e, w1) \<Rightarrow> Some (Throw e, w1)
      | Some (Return _, w1) \<Rightarrow>
          Some (Return VUndefined,
                Array_splice (list_ref this) 0 (length (arrays w1 (list_ref this))) w1))"

definition Subs_createCleanup :: "Subs \<Rightarrow> world \<Rightarrow> jsval \<times> world" where
  "Subs_createCleanup this w = new_function (SubsUnsubAll this) w"

section \<open>Calling a function value\<close>

text \<open>The first argument bounds the depth of nested calls: a cleanup function may sit in
  the very array it flushes, and then the calls nest without end. A call that needs more
  depth than the bound allows has no result (\<open>None\<close>); the theorems below are about
  calls that have one. Calling a value that is not a function throws a \<open>TypeError\<close>.
  The closures of the library ignore their arguments.\<close>

definition type_error :: jsval where
  "type_error = VError ''TypeError: not a function''"

primrec invoke :: "env \<Rightarrow> nat \<Rightarrow> invoker" where
  "invoke env 0 f args w = None"
| "invoke env (Suc n) f args w =
     (case f of
        VUser u \<Rightarrow> env u (invoke env n) args w
      | VFun i \<Rightarrow>
          (case funs w i of
             None \<Rightarrow> Some (Throw type_error, w)
           | Some NoOp \<Rightarrow> Some (Return VUndefined, w)
           | Some (RemoveListener e nm l) \<Rightarrow> Some (Return VUndefined, removeListener e nm l w)
           | Some (RemoveEventListener d nm l opts) \<Rightarrow>
               Some (Return VUndefined, removeEventListener d nm l opts w)
           | Some (ClearTimeout t) \<Rightarrow> Some (Return VUndefined, global_clearTimeout t w)
           | Some (ClearInterval t) \<Rightarrow> Some (Return VUndefined, global_clearInterval t w)
           | Some (UnsubAll unsubs) \<Rightarrow> Subscribe_unsubAll (invoke env n) unsubs w
           | Some (SubsUnsubAll this) \<Rightarrow> Subs_unsubAll (invoke env n) this w)
      | _ \<Rightarrow> Some (Throw type_error, w))"

section \<open>Specification-level definitions\<close>

text \<open>The specification of \<open>invokeAll\<close>, in its words: every element is invoked, in
  order; if invoking one raises, the error is logged and the invocation of the following
  ones continues. The recursion is on the sequence given, not on the array in the store.\<close>

fun invokeAll_spec :: "invoker \<Rightarrow> jsval list \<Rightarrow> world \<Rightarrow> world option" where
  "invokeAll_spec call [] w = Some w"
| "invokeAll_spec call (x # xs) w =
     (case call x [] w of
        None \<Rightarrow> None
      | Some (Return _, w1) \<Rightarrow> invokeAll_spec call xs w1
      | Some (Throw e, w1) \<Rightarrow> invokeAll_spec call xs (console_error e w1))"

text \<open>What the theorems on batches ask of the actions \<open>xs\<close> of an array \<open>a\<close>, relative
  to a set \<open>I\<close> of states that the run stays in: in every such state each action returns
  or raises, and leads to such a state again; logging an error stays in \<open>I\<close>; and the
  elements that were in the array when the iteration began are still in place (an action
  may append to the array, not remove or replace).\<close>

definition well_behaved :: "(world \<Rightarrow> bool) \<Rightarrow> invoker \<Rightarrow> aid \<Rightarrow> jsval list \<Rightarrow> bool" where
  "well_behaved I call a xs \<longleftrightarrow>
     (\<forall>v. I v \<longrightarrow>
        take (length xs) (arrays v a) = xs \<and>
        (\<forall>e. I (console_error e v)) \<and>
        (\<forall>x \<in> set xs. \<exists>r v'. call x [] v = Some (r, v') \<and> I v'))"


text \<open>The specification of the collector's \<open>subscribeDOMEvent\<close>, in its words: the same
  signature as the free function, options included; it performs the free function's
  registration, appends the resulting action to the list and returns that action.\<close>

definition Subs_subscribeDOMEvent_spec ::
  "Subs \<Rightarrow> did \<Rightarrow> string \<Rightarrow> jsval \<Rightarrow> listener_options option \<Rightarrow> world \<Rightarrow> jsval \<times> world" where
  "Subs_subscribeDOMEvent_spec this domObj eventName listener options w =
     (let (unsub, w1) = Subscribe_subscribeDOMEvent domObj eventName listener options w
      in (unsub, Subs_push this unsub w1))"

subsection \<open>A caller's sequence of registrations\<close>

text \<open>One call of a method of a collector that adds to its list.\<close>

datatype registration =
    RegSubscribe jsval
  | RegEvent eid string jsval
  | RegDOMEvent did string jsval
  | RegTimeout jsval "int option" "jsval list"
  | RegInterval jsval "int option" "jsval list"
  | RegPush jsval

definition Subs_call :: "invoker \<Rightarrow> Subs \<Rightarrow> registration \<Rightarrow> js" where
  "Subs_call call this reg w =
     (case reg of
        RegSubscribe fn \<Rightarrow> Subs_subscribe call this fn w
      | RegEvent e nm l \<Rightarrow>
          (let (unsub, w1) = Subs_subscribeEvent this e nm l w in Some (Return unsub, w1))
      | RegDOMEvent d nm l \<Rightarrow>
          (let (unsub, w1) = Subs_subscribeDOMEvent this d nm l w in Some (Return unsub, w1))
      | RegTimeout h d args \<Rightarrow>
          (let (unsub, w1) = Subs_setTimeout this h d args w in Some (Return unsub, w1))
      | RegInterval h d args \<Rightarrow>
          (let (unsub, w1) = Subs_setInterval this h d args w in Some (Return unsub, w1))
      | RegPush unsub \<Rightarrow> Some (Return VUndefined, Subs_push this unsub w))"

text \<open>The action the caller holds after the call: the value returned, or for \<open>push\<close>
  (which returns nothing) the action passed.\<close>

fun held :: "registration \<Rightarrow> jsval \<Rightarrow> jsval" where
  "held (RegPush unsub) r = unsub"
| "held reg r = r"

text \<open>A straight-line program of such calls; an exception ends it. It yields the actions
  held, in call order.\<close>

fun Subs_calls ::
  "invoker \<Rightarrow> Subs \<Rightarrow> registration list \<Rightarrow> world \<Rightarrow> (outcome \<times> jsval list \<times> world) option" where
  "Subs_calls call this [] w = Some (Return VUndefined, [], w)"
| "Subs_calls call this (reg # regs) w =
     (case Subs_call call this reg w of
        None \<Rightarrow> None
      | Some (Throw e, w1) \<Rightarrow> Some (Throw e, [], w1)
      | Some (Return r, w1) \<Rightarrow>
          (case Subs_calls call this regs w1 of
             None \<Rightarrow> None
           | Some (out, us, w2) \<Rightarrow> Some (out, held reg r # us, w2)))"

subsection \<open>A small calling program\<close>

definition empty_world :: world where
  "empty_world =
     \<lparr>funs = Map.empty, next_fun = 0, arrays = (\<lambda>_. []), next_arr = 0, console = [],
      emitters = (\<lambda>_. []), doms = (\<lambda>_. []), timers = Map.empty, next_timer = 0,
      app_log = []\<rparr>"

definition leave_note :: "string \<Rightarrow> world \<Rightarrow> world" where
  "leave_note msg w = w\<lparr>app_log := app_log w @ [VStr msg]\<rparr>"

text \<open>The functions of the program, by name: \<open>a\<close> and \<open>c\<close> leave a note; \<open>b\<close> leaves a
  note and throws; \<open>pusher\<close> pushes \<open>c\<close> onto array 0; \<open>register\<close> returns \<open>a\<close> as its
  deregistration action; \<open>failing\<close> throws; \<open>handler\<close> records the arguments it is
  called with.\<close>

definition demo_env :: env where
  "demo_env u call args w =
     (if u = ''a'' then Some (Return VUndefined, leave_note ''a'' w)
      else if u = ''b'' then Some (Throw (VStr ''boom''), leave_note ''b'' w)
      else if u = ''c'' then Some (Return VUndefined, leave_note ''c'' w)
      else if u = ''pusher'' then
        Some (Return VUndefined, Array_push 0 (VUser ''c'') (leave_note ''pusher'' w))
      else if u = ''register'' then Some (Return (VUser ''a''), leave_note ''registered'' w)
      else if u = ''failing'' then Some (Throw (VError ''cannot register''), w)
      else if u = ''handler'' then Some (Return VUndefined, w\<lparr>app_log := app_log w @ args\<rparr>)
      else Some (Return VUndefined, w))"

text \<open>A store whose array 0 holds the given actions; with no actions, it is the store
  after \<open>new Subs()\<close> in the empty store.\<close>

definition world_with :: "jsval list \<Rightarrow> world" where
  "world_with xs = empty_world\<lparr>arrays := (\<lambda>_. [])(0 := xs), next_arr := 1\<rparr>"



section \<open>Properties of the batch invocation\<close>

lemma well_behaved_prefix:
  "well_behaved I call a xs \<Longrightarrow> I v \<Longrightarrow> take (length xs) (arrays v a) = xs"
  by (simp add: well_behaved_def)

lemma well_behaved_nth:
  assumes "well_behaved I call a xs" "I v" "k < length xs"
  shows "k < length (arrays v a) \<and> arrays v a ! k = xs ! k"
proof -
  have t: "take (length xs) (arrays v a) = xs"
    using assms(1,2) by (rule well_behaved_prefix)
  have "length (take (length xs) (arrays v a)) = length xs"
    using t by simp
  then have "length xs \<le> length (arrays v a)"
    by simp
  moreover have "take (length xs) (arrays v a) ! k = arrays v a ! k"
    using assms(3) by simp
  ultimately show ?thesis using assms(3) t by simp
qed

lemma try_unsub_step:
  assumes "well_behaved I call a xs" "I v" "x \<in> set xs"
  shows "\<exists>v'. try_unsub call x v = Some (Return VUndefined, v') \<and> I v'
           \<and> invokeAll_spec call (x # ys) v = invokeAll_spec call ys v'"
proof -
  obtain r v' where c: "call x [] v = Some (r, v')" and i: "I v'" "\<And>e. I (console_error e v')"
    using assms unfolding well_behaved_def by blast
  show ?thesis
  proof (cases r)
    case (Return u)
    with c i show ?thesis by (simp add: try_unsub_def)
  next
    case (Throw e)
    with c i show ?thesis by (simp add: try_unsub_def)
  qed
qed

lemma forEach_try_unsub:
  assumes "well_behaved I call a xs"
  shows "I w \<Longrightarrow> k + m = length xs \<Longrightarrow>
         forEach_from (try_unsub call) a k m w =
           map_option (Pair (Return VUndefined)) (invokeAll_spec call (drop k xs) w)"
proof (induction m arbitrary: k w)
  case 0
  then show ?case by simp
next
  case (Suc m)
  then have k: "k < length xs" by simp
  then have here: "k < length (arrays w a)" "arrays w a ! k = xs ! k"
    using well_behaved_nth [OF assms Suc.prems(1)] by simp_all
  have d: "drop k xs = xs ! k # drop (Suc k) xs"
    using k by (simp add: Cons_nth_drop_Suc)
  have "xs ! k \<in> set xs" using k by simp
  from try_unsub_step [OF assms Suc.prems(1) this, of "drop (Suc k) xs"]
  obtain v' where s: "try_unsub call (xs ! k) w = Some (Return VUndefined, v')" and i: "I v'"
    and e: "invokeAll_spec call (xs ! k # drop (Suc k) xs) w = invokeAll_spec call (drop (Suc k) xs) v'"
    by blast
  have "forEach_from (try_unsub call) a (Suc k) m v' =
          map_option (Pair (Return VUndefined)) (invokeAll_spec call (drop (Suc k) xs) v')"
    using Suc.IH [OF i] Suc.prems(2) by simp
  then show ?case using here s e d by simp
qed

lemma invokeAll_spec_total:
  assumes "well_behaved I call a xs"
  shows "I w \<Longrightarrow> set ys \<subseteq> set xs \<Longrightarrow> \<exists>w'. invokeAll_spec call ys w = Some w' \<and> I w'"
proof (induction ys arbitrary: w)
  case Nil
  then show ?case by simp
next
  case (Cons y ys)
  then have "y \<in> set xs" by simp
  from try_unsub_step [OF assms Cons.prems(1) this, of ys]
  obtain v' where i: "I v'" and e: "invokeAll_spec call (y # ys) w = invokeAll_spec call ys v'"
    by blast
  from Cons.IH [OF i] Cons.prems(2) e show ?case by simp
qed





lemma Subscribe_unsubAll_array:
  assumes "well_behaved I call a (arrays w a)" "I w"
  shows "\<exists>w'. invokeAll_spec call (arrays w a) w = Some w' \<and> I w' \<and>
              Subscribe_unsubAll call (VArray a) w = Some (Return VUndefined, w')"
proof -
  from invokeAll_spec_total [OF assms, of "arrays w a"]
  obtain w' where s: "invokeAll_spec call (arrays w a) w = Some w'" and i: "I w'"
    by auto
  have "forEach_from (try_unsub call) a 0 (length (arrays w a)) w =
          map_option (Pair (Return VUndefined)) (invokeAll_spec call (drop 0 (arrays w a)) w)"
    using forEach_try_unsub [OF assms(1) assms(2), of 0 "length (arrays w a)"] by simp
  with s i show ?thesis
    by (simp add: Subscribe_unsubAll_def Array_forEach_def)
qed





lemma Subs_unsubAll_flush:
  assumes "well_behaved I call (list_ref s) (arrays w (list_ref s))" "I w"
  shows "\<exists>w1. invokeAll_spec call (arrays w (list_ref s)) w = Some w1 \<and> I w1 \<and>
              Subs_unsubAll call s w =
                Some (Return VUndefined, w1\<lparr>arrays := (arrays w1)(list_ref s := [])\<rparr>)"
proof -
  from Subscribe_unsubAll_array [OF assms]
  obtain w1 where s: "invokeAll_spec call (arrays w (list_ref s)) w = Some w1" and i: "I w1"
    and u: "Subscribe_unsubAll call (VArray (list_ref s)) w = Some (Return VUndefined, w1)"
    by blast
  have "Subs_unsubAll call s w =
          Some (Return VUndefined, w1\<lparr>arrays := (arrays w1)(list_ref s := [])\<rparr>)"
    using u by (simp add: Subs_unsubAll_def Array_splice_def)
  with s i show ?thesis by blast
qed

lemma arrays_Subs_push:
  "arrays (Subs_push s u w) a = (if a = list_ref s then arrays w a @ [u] else arrays w a)"
  by (simp add: Subs_push_def Array_push_def)

lemma arrays_fold_Subs_push:
  "arrays (fold (Subs_push s) us w) (list_ref s) = arrays w (list_ref s) @ us"
  by (induction us arbitrary: w) (simp_all add: arrays_Subs_push)


subsection \<open>The calling program\<close>

lemma invoke_demo_abc:
  assumes "x \<in> {VUser ''a'', VUser ''b'', VUser ''c''}"
  shows "\<exists>r msg. invoke demo_env (Suc n) x args v = Some (r, leave_note msg v)"
  using assms by (auto simp: demo_env_def)

lemma leave_note_frame:
  "arrays (leave_note msg v) = arrays v" "funs (leave_note msg v) = funs v"
  "console (leave_note msg v) = console v" "app_log (leave_note msg v) = app_log v @ [VStr msg]"
  by (simp_all add: leave_note_def)

lemma console_error_frame:
  "arrays (console_error e v) = arrays v" "funs (console_error e v) = funs v"
  "console (console_error e v) = console v @ [e]" "app_log (console_error e v) = app_log v"
  by (simp_all add: console_error_def)

lemma Subs_push_frame:
  "funs (Subs_push s u v) = funs v" "console (Subs_push s u v) = console v"
  "app_log (Subs_push s u v) = app_log v" "next_arr (Subs_push s u v) = next_arr v"
  by (simp_all add: Subs_push_def Array_push_def)

lemma world_with_simps:
  "arrays (world_with xs) a = (if a = 0 then xs else [])" "funs (world_with xs) = Map.empty"
  "console (world_with xs) = []" "app_log (world_with xs) = []" "next_arr (world_with xs) = 1"
  "next_fun (world_with xs) = 0" "next_timer (world_with xs) = 0" "timers (world_with xs) = Map.empty"
  "doms (world_with xs) = (\<lambda>_. [])" "emitters (world_with xs) = (\<lambda>_. [])"
  by (simp_all add: world_with_def empty_world_def)

lemmas frame_simps =
  leave_note_frame console_error_frame Subs_push_frame world_with_simps

lemma Subs_new_empty_world: "Subs_new None empty_world = (\<lparr>list_ref = 0\<rparr>, world_with [])"
  by (simp add: Subs_new_def new_array_def world_with_def empty_world_def)

lemma Subs_new_allocated:
  assumes "Subs_new None w = (s, w1)"
  shows "list_ref s < next_arr w1 \<and> arrays w1 (list_ref s) = []"
  using assms by (auto simp: Subs_new_def new_array_def)

lemma demo_well_behaved:
  assumes "set xs \<subseteq> {VUser ''a'', VUser ''b'', VUser ''c''}"
  shows "well_behaved (\<lambda>v. arrays v 0 = xs \<and> funs v = F) (invoke demo_env (Suc n)) 0 xs"
  unfolding well_behaved_def
proof (intro allI impI conjI ballI)
  fix v :: world assume "arrays v 0 = xs \<and> funs v = F"
  then show "take (length xs) (arrays v 0) = xs" by simp
next
  fix v :: world and e assume "arrays v 0 = xs \<and> funs v = F"
  then show "arrays (console_error e v) 0 = xs" and "funs (console_error e v) = F"
    by (simp_all add: frame_simps)
next
  fix v :: world and x assume i: "arrays v 0 = xs \<and> funs v = F" and "x \<in> set xs"
  with assms have "x \<in> {VUser ''a'', VUser ''b'', VUser ''c''}" by blast
  then obtain r msg where "invoke demo_env (Suc n) x [] v = Some (r, leave_note msg v)"
    using invoke_demo_abc by blast
  with i show "\<exists>r v'. invoke demo_env (Suc n) x [] v = Some (r, v') \<and> arrays v' 0 = xs \<and> funs v' = F"
    by (simp add: frame_simps)
qed

subsection \<open>Registration through a collector\<close>

lemma Subscribe_subscribe_total:
  assumes "call fn [] w \<noteq> None"
  shows "\<exists>u w'. Subscribe_subscribe call fn w = Some (Return u, w')"
proof -
  from assms obtain r w1 where c: "call fn [] w = Some (r, w1)" by auto
  show ?thesis
  proof (cases r)
    case (Return u)
    with c show ?thesis by (simp add: Subscribe_subscribe_def)
  next
    case (Throw e)
    with c show ?thesis by (simp add: Subscribe_subscribe_def new_function_def)
  qed
qed

lemma Subs_call_total:
  assumes "\<And>fn. reg = RegSubscribe fn \<Longrightarrow> call fn [] w \<noteq> None"
  shows "\<exists>r w'. Subs_call call s reg w = Some (Return r, w')"
proof (cases reg)
  case (RegSubscribe fn)
  with assms have "call fn [] w \<noteq> None" by simp
  then obtain u w1 where "Subscribe_subscribe call fn w = Some (Return u, w1)"
    using Subscribe_subscribe_total by blast
  with RegSubscribe show ?thesis by (simp add: Subs_call_def Subs_subscribe_def)
qed (simp_all add: Subs_call_def split: prod.splits)

lemma Subscribe_subscribe_frame:
  assumes "Subscribe_subscribe call fn w = Some (r, w')"
    and "\<And>r1 w1. call fn [] w = Some (r1, w1) \<Longrightarrow> arrays w1 a = arrays w a \<and> next_arr w \<le> next_arr w1"
  shows "arrays w' a = arrays w a \<and> next_arr w \<le> next_arr w'"
proof (cases "call fn [] w")
  case None
  with assms(1) show ?thesis by (simp add: Subscribe_subscribe_def)
next
  case (Some p)
  obtain r1 w1 where p: "p = (r1, w1)" by (cases p)
  with Some assms(2) have f: "arrays w1 a = arrays w a \<and> next_arr w \<le> next_arr w1" by simp
  show ?thesis
  proof (cases r1)
    case (Return u)
    with Some p assms(1) f show ?thesis by (simp add: Subscribe_subscribe_def)
  next
    case (Throw e)
    with Some p assms(1) f show ?thesis
      by (auto simp: Subscribe_subscribe_def new_function_def console_error_def)
  qed
qed

lemma Subs_call_appends:
  assumes "list_ref s < next_arr w"
    and "Subs_call call s reg w = Some (Return r, w')"
    and "\<And>fn r1 w1. reg = RegSubscribe fn \<Longrightarrow> call fn [] w = Some (r1, w1) \<Longrightarrow>
           arrays w1 (list_ref s) = arrays w (list_ref s) \<and> next_arr w \<le> next_arr w1"
  shows "arrays w' (list_ref s) = arrays w (list_ref s) @ [held reg r] \<and> next_arr w \<le> next_arr w'"
proof (cases reg)
  case (RegSubscribe fn)
  with assms(2) obtain w1 where
    s: "Subscribe_subscribe call fn w = Some (Return r, w1)" and w': "w' = Subs_push s r w1"
    by (auto simp: Subs_call_def Subs_subscribe_def split: option.splits outcome.splits)
  have "arrays w1 (list_ref s) = arrays w (list_ref s) \<and> next_arr w \<le> next_arr w1"
    using s assms(3) [OF RegSubscribe] by (rule Subscribe_subscribe_frame)
  with w' RegSubscribe show ?thesis by (simp add: arrays_Subs_push Subs_push_frame)
next
  case (RegEvent e nm l)
  with assms(2) show ?thesis
    by (auto simp: Subs_call_def Subs_subscribeEvent_def Subscribe_subscribeEvent_def
          new_function_def addListener_def arrays_Subs_push Subs_push_frame)
next
  case (RegDOMEvent d nm l)
  with assms(2) show ?thesis
    by (auto simp: Subs_call_def Subs_subscribeDOMEvent_def Subscribe_subscribeDOMEvent_def
          new_function_def addEventListener_def arrays_Subs_push Subs_push_frame)
next
  case (RegTimeout h d args)
  with assms(1,2) show ?thesis
    by (auto simp: Subs_call_def Subs_setTimeout_def new_array_def global_setTimeout_def
          set_timer_def new_function_def arrays_Subs_push Subs_push_frame)
next
  case (RegInterval h d args)
  with assms(1,2) show ?thesis
    by (auto simp: Subs_call_def Subs_setInterval_def new_array_def global_setInterval_def
          set_timer_def new_function_def arrays_Subs_push Subs_push_frame)
next
  case (RegPush u)
  with assms(2) show ?thesis
    by (auto simp: Subs_call_def arrays_Subs_push Subs_push_frame)
qed

subsection \<open>Calling the closures of the library\<close>

lemma funs_fold_Subs_push: "funs (fold (Subs_push s) us w) = funs w"
  by (induction us arbitrary: w) (simp_all add: Subs_push_frame)

lemma invoke_UnsubAll:
  "funs v i = Some (UnsubAll unsubs) \<Longrightarrow>
   invoke env (Suc n) (VFun i) args v = Subscribe_unsubAll (invoke env n) unsubs v"
  by simp

lemma invoke_SubsUnsubAll:
  "funs v i = Some (SubsUnsubAll s) \<Longrightarrow>
   invoke env (Suc n) (VFun i) args v = Subs_unsubAll (invoke env n) s v"
  by simp

subsection \<open>Termination of a batch whatever the actions do to the array\<close>








section \<open>The claims\<close>




text \<open>
  \<^bold>\<open>C2\<close> (\<open>Subscribe.subscribe\<close> guards the registration). If the function supplied
  returns, \<open>Subscribe.subscribe\<close> returns exactly the value it returned. If it raises,
  the error is appended to the console and not raised again, and what is returned is a
  new function; calling that function, then or at any later time, returns normally and
  leaves the state as it was.
\<close>

theorem subscribe_guards_registration:
  "(call fn [] w = Some (Return unsub, w1) \<longrightarrow>
      Subscribe_subscribe call fn w = Some (Return unsub, w1)) \<and>
   (call fn [] w = Some (Throw e, w1) \<longrightarrow>
      (\<exists>noop w2. Subscribe_subscribe call fn w = Some (Return noop, w2) \<and>
         w2 = (console_error e w1)\<lparr>funs := (funs w1)(next_fun w1 \<mapsto> NoOp),
                                     next_fun := Suc (next_fun w1)\<rparr> \<and>
         console w2 = console w1 @ [e] \<and>
         invoke env (Suc n) noop args w2 = Some (Return VUndefined, w2) \<and>
         (\<forall>v. funs v (next_fun w1) = Some NoOp \<longrightarrow>
              invoke env (Suc n) noop args v = Some (Return VUndefined, v))))"
  by (simp add: Subscribe_subscribe_def new_function_def console_error_def)

theorem subscribe_guards_registration_witness:
  "Subscribe_subscribe (invoke demo_env (Suc 0)) (VUser ''register'') (world_with []) =
     Some (Return (VUser ''a''), leave_note ''registered'' (world_with [])) \<and>
   (\<exists>w2. Subscribe_subscribe (invoke demo_env (Suc 0)) (VUser ''failing'') (world_with []) =
            Some (Return (VFun 0), w2) \<and>
          console w2 = [VError ''cannot register''] \<and>
          invoke demo_env (Suc 0) (VFun 0) [] w2 = Some (Return VUndefined, w2))"
proof -
  note [simp] = frame_simps funs_fold_Subs_push
  let ?call = "invoke demo_env (Suc 0)"
  let ?w = "world_with []"
  have r: "?call (VUser ''register'') [] ?w = Some (Return (VUser ''a''), leave_note ''registered'' ?w)"
    by (simp add: demo_env_def)
  have f: "?call (VUser ''failing'') [] ?w = Some (Throw (VError ''cannot register''), ?w)"
    by (simp add: demo_env_def)
  have 1: "Subscribe_subscribe ?call (VUser ''register'') ?w =
             Some (Return (VUser ''a''), leave_note ''registered'' ?w)"
    using subscribe_guards_registration
      [of ?call "VUser ''register''" ?w "VUser ''a''" "leave_note ''registered'' ?w"] r
    by blast
  from subscribe_guards_registration
      [of ?call "VUser ''failing''" ?w _ ?w "VError ''cannot register''" demo_env 0 "[]"] f
  obtain noop w2 where s: "Subscribe_subscribe ?call (VUser ''failing'') ?w = Some (Return noop, w2)"
    and w2: "w2 = (console_error (VError ''cannot register'') ?w)\<lparr>funs := (funs ?w)(next_fun ?w \<mapsto> NoOp),
                                     next_fun := Suc (next_fun ?w)\<rparr>"
    and c: "console w2 = console ?w @ [VError ''cannot register'']"
    and i: "invoke demo_env (Suc 0) noop [] w2 = Some (Return VUndefined, w2)"
    by blast
  have "Subscribe_subscribe ?call (VUser ''failing'') ?w = Some (Return (VFun 0), snd (new_function NoOp (console_error (VError ''cannot register'') ?w)))"
    by (simp add: Subscribe_subscribe_def f new_function_def console_error_def del: invoke.simps)
  with s have "noop = VFun 0" by simp
  with 1 s c i show ?thesis by simp
qed







text \<open>
  \<^bold>\<open>C5\<close> (\<open>Subs.subscribeDOMEvent\<close> and the options). The collector's method has
  no parameter for the options (a fourth argument of a call is dropped, as JavaScript
  does with surplus arguments), so it does not do what the specified one does when
  options are given: with \<open>capture\<close> set, the specified method registers a capturing
  listener, the method of the source a non-capturing one.
\<close>

theorem Subs_subscribeDOMEvent_ignores_options:
  "Subs_subscribeDOMEvent \<lparr>list_ref = 0\<rparr> 0 ''click'' (VUser ''handler'') (world_with []) \<noteq>
     Subs_subscribeDOMEvent_spec \<lparr>list_ref = 0\<rparr> 0 ''click'' (VUser ''handler'')
       (Some (OptBoolean True)) (world_with []) \<and>
   doms (snd (Subs_subscribeDOMEvent \<lparr>list_ref = 0\<rparr> 0 ''click'' (VUser ''handler'') (world_with []))) 0
     = [(''click'', VUser ''handler'', False)] \<and>
   doms (snd (Subs_subscribeDOMEvent_spec \<lparr>list_ref = 0\<rparr> 0 ''click'' (VUser ''handler'')
       (Some (OptBoolean True)) (world_with []))) 0
     = [(''click'', VUser ''handler'', True)]"
proof -
  note [simp] = frame_simps funs_fold_Subs_push
  let ?c = "Subs_subscribeDOMEvent \<lparr>list_ref = 0\<rparr> 0 ''click'' (VUser ''handler'') (world_with [])"
  let ?s = "Subs_subscribeDOMEvent_spec \<lparr>list_ref = 0\<rparr> 0 ''click'' (VUser ''handler'')
       (Some (OptBoolean True)) (world_with [])"
  have c: "doms (snd ?c) 0 = [(''click'', VUser ''handler'', False)]"
    by (simp add: Subs_subscribeDOMEvent_def Subscribe_subscribeDOMEvent_def new_function_def
          addEventListener_def Subs_push_def Array_push_def)
  have s: "doms (snd ?s) 0 = [(''click'', VUser ''handler'', True)]"
    by (simp add: Subs_subscribeDOMEvent_spec_def Subscribe_subscribeDOMEvent_def new_function_def
          addEventListener_def Subs_push_def Array_push_def)
  have "?c \<noteq> ?s"
  proof
    assume "?c = ?s"
    then have "doms (snd ?c) 0 = doms (snd ?s) 0" by simp
    then show False unfolding c s by simp
  qed
  with c s show ?thesis by blast
qed

text \<open>
  \<^bold>\<open>C5\<close>, as the source has it. \<open>Subs.subscribeDOMEvent\<close> takes a target, an event
  name and a listener, and is the specified method with the options omitted. The free
  function \<open>Subscribe.subscribeDOMEvent\<close> attaches with the options it is given, and
  the action it returns detaches with the same options.
\<close>

theorem Subs_subscribeDOMEvent_without_options:
  "Subs_subscribeDOMEvent s d nm l w = Subs_subscribeDOMEvent_spec s d nm l None w \<and>
   (case Subscribe_subscribeDOMEvent d nm l opts w of
      (unsub, w1) \<Rightarrow>
        doms w1 = doms (addEventListener d nm l opts w) \<and>
        invoke env (Suc n) unsub [] w1 = Some (Return VUndefined, removeEventListener d nm l opts w1))"
  by (simp add: Subs_subscribeDOMEvent_def Subs_subscribeDOMEvent_spec_def
        Subscribe_subscribeDOMEvent_def new_function_def)

theorem Subs_subscribeDOMEvent_without_options_witness:
  "Subs_subscribeDOMEvent \<lparr>list_ref = 0\<rparr> 0 ''click'' (VUser ''handler'') (world_with []) =
     Subs_subscribeDOMEvent_spec \<lparr>list_ref = 0\<rparr> 0 ''click'' (VUser ''handler'') None (world_with []) \<and>
   (case Subscribe_subscribeDOMEvent 0 ''click'' (VUser ''handler'') (Some (OptBoolean True)) (world_with []) of
      (unsub, w1) \<Rightarrow>
        doms w1 0 = [(''click'', VUser ''handler'', True)] \<and>
        map_option (\<lambda>(r, w2). (r, doms w2 0)) (invoke demo_env (Suc 0) unsub [] w1) = Some (Return VUndefined, []))"
proof -
  note [simp] = frame_simps funs_fold_Subs_push
  note th = Subs_subscribeDOMEvent_without_options
    [of "\<lparr>list_ref = 0\<rparr>" 0 "''click''" "VUser ''handler''" "world_with []" "Some (OptBoolean True)" demo_env 0]
  obtain unsub w1 where
    p: "Subscribe_subscribeDOMEvent 0 ''click'' (VUser ''handler'') (Some (OptBoolean True)) (world_with []) = (unsub, w1)"
    by (cases "Subscribe_subscribeDOMEvent 0 ''click'' (VUser ''handler'') (Some (OptBoolean True)) (world_with [])")
  with th have d: "doms w1 = doms (addEventListener 0 ''click'' (VUser ''handler'') (Some (OptBoolean True)) (world_with []))"
    and i: "invoke demo_env (Suc 0) unsub [] w1 =
              Some (Return VUndefined, removeEventListener 0 ''click'' (VUser ''handler'') (Some (OptBoolean True)) w1)"
    by simp_all
  from d have d0: "doms w1 0 = [(''click'', VUser ''handler'', True)]"
    by (simp add: addEventListener_def)
  then have "doms (removeEventListener 0 ''click'' (VUser ''handler'') (Some (OptBoolean True)) w1) 0 = []"
    by (simp add: removeEventListener_def)
  with th p d0 i show ?thesis by simp
qed

text \<open>
  \<^bold>\<open>C6\<close> (arguments of a timer's handler). \<open>Subscribe.setTimeout(handler, 50, 1, 2)\<close>
  and \<open>Subscribe.setInterval(handler, 50, 1, 2)\<close> hand the platform one argument for
  the handler, the array \<open>[1, 2]\<close>: when the timer fires, the handler is called with
  that array as its only argument, not with 1 and 2. The delay is the one given, or 0
  when omitted, and the action returned removes the pending timer.
\<close>

theorem setTimeout_passes_args_as_one_array:
  "(case Subscribe_setTimeout (VUser ''handler'') (Some 50) [VNum 1, VNum 2] (world_with []) of
      (unsub, w1) \<Rightarrow>
        map_option targs (timers w1 0) = Some [VArray 1] \<and>
        arrays w1 1 = [VNum 1, VNum 2] \<and>
        map_option (\<lambda>(r, w2). app_log w2) (fire_timer (invoke demo_env (Suc 0)) 0 w1) = Some [VArray 1] \<and>
        map_option delay (timers w1 0) = Some 50 \<and>
        map_option (\<lambda>(r, w2). (r, timers w2 0)) (invoke demo_env (Suc 0) unsub [] w1)
          = Some (Return VUndefined, None)) \<and>
   (case Subscribe_setInterval (VUser ''handler'') None [VNum 1, VNum 2] (world_with []) of
      (unsub, w1) \<Rightarrow>
        map_option targs (timers w1 0) = Some [VArray 1] \<and>
        arrays w1 1 = [VNum 1, VNum 2] \<and>
        map_option (\<lambda>(r, w2). app_log w2) (fire_timer (invoke demo_env (Suc 0)) 0 w1) = Some [VArray 1] \<and>
        map_option delay (timers w1 0) = Some 0 \<and>
        map_option (\<lambda>(r, w2). (r, timers w2 0)) (invoke demo_env (Suc 0) unsub [] w1)
          = Some (Return VUndefined, None))"
  by (simp add: Subscribe_setTimeout_def Subscribe_setInterval_def new_array_def
        global_setTimeout_def global_setInterval_def set_timer_def new_function_def
        fire_timer_def global_clearTimeout_def global_clearInterval_def demo_env_def
        world_with_simps)

text \<open>
  \<^bold>\<open>C7\<close> (every registration appends its action). A caller makes any sequence of
  calls of \<open>subscribe\<close>, \<open>subscribeEvent\<close>, \<open>subscribeDOMEvent\<close>, \<open>setTimeout\<close>,
  \<open>setInterval\<close> and \<open>push\<close> on a collector whose array is allocated, where the
  functions passed to \<open>subscribe\<close> return or raise and leave that array alone. Then
  every call returns, each adds exactly one action, and afterwards the list is what it
  was before, followed by the actions the calls returned (for \<open>push\<close>, the action
  passed), in call order.
\<close>

theorem registrations_append_in_call_order:
  assumes "list_ref s < next_arr w"
    and "\<And>fn v. RegSubscribe fn \<in> set regs \<Longrightarrow>
           \<exists>r v'. call fn [] v = Some (r, v') \<and>
                  arrays v' (list_ref s) = arrays v (list_ref s) \<and> next_arr v \<le> next_arr v'"
  shows "\<exists>us w'. Subs_calls call s regs w = Some (Return VUndefined, us, w') \<and>
           length us = length regs \<and>
           arrays w' (list_ref s) = arrays w (list_ref s) @ us"
  using assms
proof (induction regs arbitrary: w)
  case Nil
  then show ?case by simp
next
  case (Cons reg regs)
  have "call fn [] w \<noteq> None" if "reg = RegSubscribe fn" for fn
    using Cons.prems(2) [of fn w] that by auto
  then obtain r w1 where c: "Subs_call call s reg w = Some (Return r, w1)"
    using Subs_call_total [of reg call w s] by blast
  have "arrays w2 (list_ref s) = arrays w (list_ref s) \<and> next_arr w \<le> next_arr w2"
    if "reg = RegSubscribe fn" "call fn [] w = Some (r1, w2)" for fn r1 w2
    using Cons.prems(2) [of fn w] that by auto
  with Cons.prems(1) c
  have step: "arrays w1 (list_ref s) = arrays w (list_ref s) @ [held reg r] \<and> next_arr w \<le> next_arr w1"
    by (intro Subs_call_appends) auto
  then have wf: "list_ref s < next_arr w1" using Cons.prems(1) by simp
  from Cons.IH [OF wf] Cons.prems(2)
  obtain us1 w' where rest: "Subs_calls call s regs w1 = Some (Return VUndefined, us1, w')"
    and l: "length us1 = length regs"
    and a: "arrays w' (list_ref s) = arrays w1 (list_ref s) @ us1"
    by auto
  from c rest have "Subs_calls call s (reg # regs) w = Some (Return VUndefined, held reg r # us1, w')"
    by simp
  with l a step show ?case by simp
qed

theorem registrations_append_in_call_order_witness:
  "\<exists>w'. Subs_calls (invoke demo_env (Suc 0)) \<lparr>list_ref = 0\<rparr>
      [RegSubscribe (VUser ''register''), RegEvent 0 ''data'' (VUser ''handler''),
       RegDOMEvent 0 ''click'' (VUser ''handler''),
       RegTimeout (VUser ''handler'') (Some 50) [VNum 1], RegInterval (VUser ''handler'') None [],
       RegPush (VUser ''c'')] (world_with [VUser ''b'']) =
     Some (Return VUndefined, [VUser ''a'', VFun 0, VFun 1, VFun 2, VFun 3, VUser ''c''], w') \<and>
     arrays w' 0 = [VUser ''b'', VUser ''a'', VFun 0, VFun 1, VFun 2, VFun 3, VUser ''c'']"
proof -
  note [simp] = frame_simps funs_fold_Subs_push
  let ?s = "\<lparr>list_ref = 0\<rparr>"
  let ?call = "invoke demo_env (Suc 0)"
  let ?regs = "[RegSubscribe (VUser ''register''), RegEvent 0 ''data'' (VUser ''handler''),
       RegDOMEvent 0 ''click'' (VUser ''handler''),
       RegTimeout (VUser ''handler'') (Some 50) [VNum 1], RegInterval (VUser ''handler'') None [],
       RegPush (VUser ''c'')]"
  let ?us = "[VUser ''a'', VFun 0, VFun 1, VFun 2, VFun 3, VUser ''c'']"
  have "\<exists>w'. Subs_calls ?call ?s ?regs (world_with [VUser ''b'']) = Some (Return VUndefined, ?us, w')"
    by (simp add: Subs_call_def Subs_subscribe_def Subscribe_subscribe_def demo_env_def
      Subs_subscribeEvent_def Subscribe_subscribeEvent_def Subs_subscribeDOMEvent_def
      Subscribe_subscribeDOMEvent_def Subs_setTimeout_def Subs_setInterval_def new_function_def
      new_array_def global_setTimeout_def global_setInterval_def set_timer_def
      addListener_def addEventListener_def leave_note_def console_error_def
      Subs_push_def Array_push_def)
  then obtain w0 where
    ev: "Subs_calls ?call ?s ?regs (world_with [VUser ''b'']) = Some (Return VUndefined, ?us, w0)"
    by blast
  have wf: "list_ref ?s < next_arr (world_with [VUser ''b''])" by simp
  have fr: "\<exists>r v'. ?call fn [] v = Some (r, v') \<and>
              arrays v' (list_ref ?s) = arrays v (list_ref ?s) \<and> next_arr v \<le> next_arr v'"
    if "RegSubscribe fn \<in> set ?regs" for fn v
  proof -
    from that have "fn = VUser ''register''" by simp
    then show ?thesis by (simp add: demo_env_def leave_note_def)
  qed
  from registrations_append_in_call_order
         [where s = ?s and w = "world_with [VUser ''b'']" and regs = ?regs and call = ?call, OF wf fr]
  obtain us w' where "Subs_calls ?call ?s ?regs (world_with [VUser ''b'']) = Some (Return VUndefined, us, w')"
    and "arrays w' (list_ref ?s) = arrays (world_with [VUser ''b'']) (list_ref ?s) @ us"
    by blast
  with ev have "arrays w0 0 = [VUser ''b''] @ ?us" by simp
  with ev show ?thesis by auto
qed

text \<open>
  \<^bold>\<open>C8\<close> (\<open>Subscribe.createCleanup\<close>). The function returned is a new closure over
  the argument; whenever it is called it runs \<open>Subscribe.unsubAll\<close> on that argument.
  Nothing remembers that it ran: for an array of well-behaved actions that leave the
  array as it is, calling the cleanup function twice runs the whole batch twice, the
  second time from the state the first one left.
\<close>

theorem createCleanup_calls_unsubAll_every_time:
  assumes "Subscribe_createCleanup unsubs w0 = (c, w)"
  shows "c = VFun (next_fun w0) \<and> funs w (next_fun w0) = Some (UnsubAll unsubs) \<and>
         (\<forall>v. funs v (next_fun w0) = Some (UnsubAll unsubs) \<longrightarrow>
              invoke env (Suc n) c [] v = Subscribe_unsubAll (invoke env n) unsubs v) \<and>
         (unsubs = VArray a \<and> I w \<and> well_behaved I (invoke env n) a xs \<and>
          (\<forall>v. I v \<longrightarrow> arrays v a = xs \<and> funs v (next_fun w0) = Some (UnsubAll unsubs)) \<longrightarrow>
            (\<exists>w1 w2. invokeAll_spec (invoke env n) xs w = Some w1 \<and>
                     invoke env (Suc n) c [] w = Some (Return VUndefined, w1) \<and>
                     invokeAll_spec (invoke env n) xs w1 = Some w2 \<and>
                     invoke env (Suc n) c [] w1 = Some (Return VUndefined, w2)))"
proof -
  let ?call = "invoke env n"
  have c: "c = VFun (next_fun w0)" and f: "funs w (next_fun w0) = Some (UnsubAll unsubs)"
    using assms by (auto simp: Subscribe_createCleanup_def new_function_def)
  have run: "invoke env (Suc n) c [] v = Subscribe_unsubAll ?call unsubs v"
    if "funs v (next_fun w0) = Some (UnsubAll unsubs)" for v
    unfolding c using that by (rule invoke_UnsubAll)
  have twice: "\<exists>w1 w2. invokeAll_spec ?call xs w = Some w1 \<and>
                     invoke env (Suc n) c [] w = Some (Return VUndefined, w1) \<and>
                     invokeAll_spec ?call xs w1 = Some w2 \<and>
                     invoke env (Suc n) c [] w1 = Some (Return VUndefined, w2)"
    if u: "unsubs = VArray a" and i: "I w" and wb: "well_behaved I ?call a xs"
      and fr: "\<forall>v. I v \<longrightarrow> arrays v a = xs \<and> funs v (next_fun w0) = Some (UnsubAll unsubs)"
  proof -
    have step: "\<exists>v'. invokeAll_spec ?call xs v = Some v' \<and> I v' \<and>
                  invoke env (Suc n) c [] v = Some (Return VUndefined, v')" if "I v" for v
    proof -
      from fr that have a: "arrays v a = xs" and fv: "funs v (next_fun w0) = Some (UnsubAll unsubs)"
        by simp_all
      from wb a have "well_behaved I ?call a (arrays v a)" by simp
      from Subscribe_unsubAll_array [OF this that] a run [OF fv] u show ?thesis by simp
    qed
    from step [OF i] obtain w1 where 1: "invokeAll_spec ?call xs w = Some w1" "I w1"
      "invoke env (Suc n) c [] w = Some (Return VUndefined, w1)" by blast
    from step [OF 1(2)] obtain w2 where "invokeAll_spec ?call xs w1 = Some w2"
      "invoke env (Suc n) c [] w1 = Some (Return VUndefined, w2)" by blast
    with 1 show ?thesis by blast
  qed
  from c f run twice show ?thesis by blast
qed

theorem createCleanup_calls_unsubAll_every_time_witness:
  "\<exists>w w1 w2. Subscribe_createCleanup (VArray 0) (world_with [VUser ''a'', VUser ''b'']) = (VFun 0, w) \<and>
     invoke demo_env (Suc (Suc 0)) (VFun 0) [] w = Some (Return VUndefined, w1) \<and>
     invoke demo_env (Suc (Suc 0)) (VFun 0) [] w1 = Some (Return VUndefined, w2) \<and>
     app_log w1 = [VStr ''a'', VStr ''b''] \<and>
     app_log w2 = [VStr ''a'', VStr ''b'', VStr ''a'', VStr ''b''] \<and>
     console w2 = [VStr ''boom'', VStr ''boom'']"
proof -
  note [simp] = frame_simps funs_fold_Subs_push
  let ?xs = "[VUser ''a'', VUser ''b'']"
  let ?w0 = "world_with ?xs"
  let ?call = "invoke demo_env (Suc 0)"
  obtain c w where cw: "Subscribe_createCleanup (VArray 0) ?w0 = (c, w)"
    by (cases "Subscribe_createCleanup (VArray 0) ?w0")
  let ?I = "\<lambda>v. arrays v 0 = ?xs \<and> funs v = funs w"
  have w: "arrays w 0 = ?xs" "funs w 0 = Some (UnsubAll (VArray 0))" "app_log w = []" "console w = []"
    and c: "c = VFun 0"
    using cw by (auto simp: Subscribe_createCleanup_def new_function_def)
  have wb: "well_behaved ?I ?call 0 ?xs"
    by (rule demo_well_behaved) simp
  have fr: "\<forall>v. ?I v \<longrightarrow> arrays v 0 = ?xs \<and> funs v (next_fun ?w0) = Some (UnsubAll (VArray 0))"
    using w by simp
  have ev: "invokeAll_spec ?call ?xs v =
              Some (console_error (VStr ''boom'') (leave_note ''b'' (leave_note ''a'' v)))" for v
    by (simp add: demo_env_def)
  from createCleanup_calls_unsubAll_every_time
         [OF cw, where a = 0 and I = ?I and env = demo_env and n = "Suc 0" and xs = ?xs] wb fr w(1)
  obtain w1 w2 where r: "invokeAll_spec ?call ?xs w = Some w1"
    "invoke demo_env (Suc (Suc 0)) c [] w = Some (Return VUndefined, w1)"
    "invokeAll_spec ?call ?xs w1 = Some w2"
    "invoke demo_env (Suc (Suc 0)) c [] w1 = Some (Return VUndefined, w2)"
    by blast
  from r(1) have w1: "w1 = console_error (VStr ''boom'') (leave_note ''b'' (leave_note ''a'' w))"
    unfolding ev by simp
  from r(3) have w2: "w2 = console_error (VStr ''boom'') (leave_note ''b'' (leave_note ''a'' w1))"
    unfolding ev by simp
  have "app_log w1 = [VStr ''a'', VStr ''b'']" "app_log w2 = [VStr ''a'', VStr ''b'', VStr ''a'', VStr ''b'']"
    "console w2 = [VStr ''boom'', VStr ''boom'']"
    unfolding w2 unfolding w1 using w(3,4) by simp_all
  with cw r(2,4) show ?thesis unfolding c by blast
qed

text \<open>
  \<^bold>\<open>C9\<close> (\<open>Subs.createCleanup\<close>). The function returned differs from the one any
  later call of \<open>createCleanup\<close> returns (function identities are not reused). Whenever
  it is called it runs \<open>unsubAll\<close> of the collector on the list as it is then: the
  actions pushed after the cleanup function was created are invoked with the earlier
  ones, and the list is emptied.
\<close>

theorem Subs_createCleanup_flushes_live_list:
  assumes "Subs_createCleanup s w0 = (c, w)"
  shows "(\<forall>v c' v'. next_fun w \<le> next_fun v \<and> Subs_createCleanup s v = (c', v') \<longrightarrow> c' \<noteq> c) \<and>
         (\<forall>v. funs v (next_fun w0) = Some (SubsUnsubAll s) \<longrightarrow>
              invoke env (Suc n) c [] v = Subs_unsubAll (invoke env n) s v) \<and>
         (I (fold (Subs_push s) us w) \<and>
          well_behaved I (invoke env n) (list_ref s) (arrays w0 (list_ref s) @ us) \<longrightarrow>
            (\<exists>w1. invokeAll_spec (invoke env n) (arrays w0 (list_ref s) @ us)
                     (fold (Subs_push s) us w) = Some w1 \<and>
                  invoke env (Suc n) c [] (fold (Subs_push s) us w) =
                    Some (Return VUndefined, w1\<lparr>arrays := (arrays w1)(list_ref s := [])\<rparr>)))"
proof -
  let ?call = "invoke env n"
  let ?w2 = "fold (Subs_push s) us w"
  have c: "c = VFun (next_fun w0)" and f: "funs w (next_fun w0) = Some (SubsUnsubAll s)"
    and n: "next_fun w = Suc (next_fun w0)" and a: "arrays w = arrays w0"
    using assms by (auto simp: Subs_createCleanup_def new_function_def)
  have distinct: "c' \<noteq> c" if "next_fun w \<le> next_fun v" "Subs_createCleanup s v = (c', v')" for v c' v'
  proof -
    from that(2) have "c' = VFun (next_fun v)"
      by (auto simp: Subs_createCleanup_def new_function_def)
    with that(1) c n show ?thesis by simp
  qed
  have run: "invoke env (Suc n) c [] v = Subs_unsubAll ?call s v"
    if "funs v (next_fun w0) = Some (SubsUnsubAll s)" for v
    unfolding c using that by (rule invoke_SubsUnsubAll)
  have live: "\<exists>w1. invokeAll_spec ?call (arrays w0 (list_ref s) @ us) ?w2 = Some w1 \<and>
                  invoke env (Suc n) c [] ?w2 =
                    Some (Return VUndefined, w1\<lparr>arrays := (arrays w1)(list_ref s := [])\<rparr>)"
    if i: "I ?w2" and wb: "well_behaved I ?call (list_ref s) (arrays w0 (list_ref s) @ us)"
  proof -
    have l: "arrays ?w2 (list_ref s) = arrays w0 (list_ref s) @ us"
      by (simp add: arrays_fold_Subs_push a)
    have "funs ?w2 (next_fun w0) = Some (SubsUnsubAll s)"
      using f by (simp add: funs_fold_Subs_push)
    then have r: "invoke env (Suc n) c [] ?w2 = Subs_unsubAll ?call s ?w2" by (rule run)
    from wb l have "well_behaved I ?call (list_ref s) (arrays ?w2 (list_ref s))" by simp
    from Subs_unsubAll_flush [OF this i] show ?thesis unfolding l r by blast
  qed
  from distinct run live show ?thesis by blast
qed

theorem Subs_createCleanup_flushes_live_list_witness:
  "\<exists>w c' v' w'. Subs_createCleanup \<lparr>list_ref = 0\<rparr> (world_with [VUser ''a'']) = (VFun 0, w) \<and>
     Subs_createCleanup \<lparr>list_ref = 0\<rparr> w = (c', v') \<and> c' \<noteq> VFun 0 \<and>
     invoke demo_env (Suc (Suc 0)) (VFun 0) [] (Subs_push \<lparr>list_ref = 0\<rparr> (VUser ''c'') w) =
       Some (Return VUndefined, w') \<and>
     app_log w' = [VStr ''a'', VStr ''c''] \<and> arrays w' 0 = []"
proof -
  note [simp] = frame_simps funs_fold_Subs_push
  let ?s = "\<lparr>list_ref = 0\<rparr>"
  let ?w0 = "world_with [VUser ''a'']"
  let ?xs = "[VUser ''a'', VUser ''c'']"
  let ?call = "invoke demo_env (Suc 0)"
  obtain c w where cw: "Subs_createCleanup ?s ?w0 = (c, w)"
    by (cases "Subs_createCleanup ?s ?w0")
  obtain c' v' where cv: "Subs_createCleanup ?s w = (c', v')"
    by (cases "Subs_createCleanup ?s w")
  let ?w2 = "fold (Subs_push ?s) [VUser ''c''] w"
  let ?I = "\<lambda>v. arrays v 0 = ?xs \<and> funs v = funs ?w2"
  have w: "arrays w 0 = [VUser ''a'']" "app_log w = []" and c: "c = VFun 0"
    using cw by (auto simp: Subs_createCleanup_def new_function_def)
  have a2: "arrays ?w2 0 = ?xs" "app_log ?w2 = []"
    using w by (simp_all add: arrays_Subs_push)
  have wb: "well_behaved ?I ?call (list_ref ?s) (arrays ?w0 (list_ref ?s) @ [VUser ''c''])"
    using demo_well_behaved [of ?xs "funs ?w2" 0] by simp
  have i: "?I ?w2" using a2 by simp
  have ev: "invokeAll_spec ?call ?xs v = Some (leave_note ''c'' (leave_note ''a'' v))" for v
    by (simp add: demo_env_def)
  note th = Subs_createCleanup_flushes_live_list
    [OF cw, where env = demo_env and n = "Suc 0" and I = ?I and us = "[VUser ''c'']"]
  from th cv have d: "c' \<noteq> c" by auto
  from th wb i obtain w1 where
    r: "invokeAll_spec ?call (arrays ?w0 (list_ref ?s) @ [VUser ''c'']) ?w2 = Some w1"
    "invoke demo_env (Suc (Suc 0)) c [] ?w2 =
       Some (Return VUndefined, w1\<lparr>arrays := (arrays w1)(list_ref ?s := [])\<rparr>)"
    by blast
  from r(1) have w1: "w1 = leave_note ''c'' (leave_note ''a'' ?w2)"
    using ev [of ?w2] by simp
  have "app_log (w1\<lparr>arrays := (arrays w1)(list_ref ?s := [])\<rparr>) = [VStr ''a'', VStr ''c'']"
    "arrays (w1\<lparr>arrays := (arrays w1)(list_ref ?s := [])\<rparr>) 0 = []"
    unfolding w1 using a2(2) by simp_all
  with cw cv d r(2) show ?thesis unfolding c by auto
qed



end
